theory Spec2Isabelle
  imports Complex_Main "HOL-Library.Log_Nat" "HOL-Library.Sublist"
begin

section \<open>JavaScript numbers\<close>

text \<open>
  A number is \<open>NaN\<close>, one of the two infinities, or a finite IEEE-754 double, given by
  its value. Negative zero is identified with zero: the handlers only test numbers with
  \<open>!x\<close> and \<open>x > 0\<close>, which do not tell the two apart. A number read from JSON
  is always a double; what is proved below for every \<open>Fin q\<close> holds for those.
\<close>

datatype jsnum = NaN | PInf | NInf | Fin rat

text \<open>
  \<open>floor_log2 x\<close> is the exponent \<open>k\<close> with \<open>2^k \<le> x < 2^(k+1)\<close>, for \<open>x > 0\<close>: the
  bit lengths of numerator and denominator give it up to one.
\<close>

definition floor_log2 :: "rat \<Rightarrow> int" where
  "floor_log2 x =
     (let k = bitlen (fst (quotient_of x)) - bitlen (snd (quotient_of x))
      in if 2 powi k \<le> x then k else k - 1)"

text \<open>The nearest integer, a tie going to the even one.\<close>

definition round_half_even :: "rat \<Rightarrow> int" where
  "round_half_even q =
     (let f = \<lfloor>q\<rfloor>; r = q - of_int f
      in if r < 1 / 2 then f
         else if 1 / 2 < r then f + 1
         else if even f then f else f + 1)"

text \<open>
  The double nearest to an exact value, ties to even: 53 significant bits, the unit in
  the last place never below \<open>2^-1074\<close> (so small values lose bits and round to zero
  from \<open>2^-1075\<close> down), and an infinity once the rounded value reaches \<open>2^1024\<close>.
\<close>

definition round_double :: "rat \<Rightarrow> jsnum" where
  "round_double x =
     (if x = 0 then Fin 0
      else
        (let e = max (floor_log2 \<bar>x\<bar> - 52) (- 1074);
             r = of_int (round_half_even (\<bar>x\<bar> / 2 powi e)) * 2 powi e
         in if 2 ^ 1024 \<le> r then (if 0 < x then PInf else NInf)
            else Fin (sgn x * r)))"

text \<open>A decimal literal of the source, such as \<open>0.10\<close>, denotes the nearest double.\<close>

definition lit :: "rat \<Rightarrow> jsnum" where
  "lit q = round_double q"

text \<open>\<open>a * b\<close>: the exact product, rounded.\<close>

fun js_mul :: "jsnum \<Rightarrow> jsnum \<Rightarrow> jsnum" where
  "js_mul NaN _ = NaN"
| "js_mul _ NaN = NaN"
| "js_mul (Fin a) (Fin b) = round_double (a * b)"
| "js_mul PInf (Fin b) = (if 0 < b then PInf else if b < 0 then NInf else NaN)"
| "js_mul NInf (Fin b) = (if 0 < b then NInf else if b < 0 then PInf else NaN)"
| "js_mul (Fin a) PInf = (if 0 < a then PInf else if a < 0 then NInf else NaN)"
| "js_mul (Fin a) NInf = (if 0 < a then NInf else if a < 0 then PInf else NaN)"
| "js_mul PInf PInf = PInf"
| "js_mul NInf NInf = PInf"
| "js_mul PInf NInf = NInf"
| "js_mul NInf PInf = NInf"

text \<open>\<open>a + b\<close>: the exact sum, rounded.\<close>

fun js_add :: "jsnum \<Rightarrow> jsnum \<Rightarrow> jsnum" where
  "js_add NaN _ = NaN"
| "js_add _ NaN = NaN"
| "js_add (Fin a) (Fin b) = round_double (a + b)"
| "js_add PInf NInf = NaN"
| "js_add NInf PInf = NaN"
| "js_add PInf _ = PInf"
| "js_add _ PInf = PInf"
| "js_add NInf _ = NInf"
| "js_add _ NInf = NInf"

text \<open>\<open>a > b\<close> and \<open>a <= b\<close>: every comparison with \<open>NaN\<close> is false.\<close>

fun js_gt :: "jsnum \<Rightarrow> jsnum \<Rightarrow> bool" where
  "js_gt NaN _ = False"
| "js_gt _ NaN = False"
| "js_gt (Fin a) (Fin b) = (b < a)"
| "js_gt PInf PInf = False"
| "js_gt PInf _ = True"
| "js_gt NInf _ = False"
| "js_gt (Fin a) NInf = True"
| "js_gt (Fin a) PInf = False"

fun js_le :: "jsnum \<Rightarrow> jsnum \<Rightarrow> bool" where
  "js_le NaN _ = False"
| "js_le _ NaN = False"
| "js_le a b = (\<not> js_gt a b)"

section \<open>JavaScript values\<close>

text \<open>
  The handlers read fields of a parsed JSON body, test them with \<open>!x\<close>, combine them
  with \<open>||\<close> and \<open>??\<close>, compare them with \<open>===\<close> and convert them with
  \<open>Number(x)\<close>. The values below are what such a field can hold.
\<close>

datatype jsval =
    JUndefined
  | JNull
  | JBool bool
  | JNum jsnum
  | JStr string
  | JObj string  \<comment> \<open>an object or an array, named by its JSON text\<close>

text \<open>\<open>!x\<close> is \<open>\<not> truthy x\<close>.\<close>

fun truthy :: "jsval \<Rightarrow> bool" where
  "truthy JUndefined = False"
| "truthy JNull = False"
| "truthy (JBool b) = b"
| "truthy (JNum NaN) = False"
| "truthy (JNum (Fin r)) = (r \<noteq> 0)"
| "truthy (JNum _) = True"
| "truthy (JStr s) = (s \<noteq> [])"
| "truthy (JObj _) = True"

text \<open>\<open>a || b\<close>\<close>

definition js_or :: "jsval \<Rightarrow> jsval \<Rightarrow> jsval" where
  "js_or a b = (if truthy a then a else b)"

text \<open>
  \<open>a === b\<close>. \<open>NaN\<close> equals nothing; an object of one request body is never the
  object of another.
\<close>

fun strict_eq :: "jsval \<Rightarrow> jsval \<Rightarrow> bool" where
  "strict_eq (JNum a) (JNum b) = (a \<noteq> NaN \<and> a = b)"
| "strict_eq (JObj _) (JObj _) = False"
| "strict_eq a b = (a = b)"

text \<open>
  \<open>Number(x)\<close>. The conversion of a string and of an object belongs to the runtime,
  not to the repository. A string always converts; an object converts through its
  \<open>valueOf\<close> and \<open>toString\<close>, and \<open>Number\<close> throws when neither gives a
  primitive (\<open>None\<close>), as for the JSON object \<open>{"toString": 1}\<close>.
\<close>

record runtime =
  StringToNumber :: "string \<Rightarrow> jsnum"
  ObjectToNumber :: "string \<Rightarrow> jsnum option"

fun Number_js :: "runtime \<Rightarrow> jsval \<Rightarrow> jsnum option" where
  "Number_js rt JUndefined = Some NaN"
| "Number_js rt JNull = Some (Fin 0)"
| "Number_js rt (JBool b) = Some (Fin (if b then 1 else 0))"
| "Number_js rt (JNum n) = Some n"
| "Number_js rt (JStr s) = Some (StringToNumber rt s)"
| "Number_js rt (JObj obj) = ObjectToNumber rt obj"

section \<open>Storage\<close>

text \<open>
  The four in-memory arrays and their element shapes. \<open>createdAt\<close> and the click's
  \<open>timestamp\<close> are clock readings and are left out.
\<close>

record user =
  u_id :: nat
  u_name :: jsval
  u_email :: jsval
  u_passwordHash :: string
  u_code :: string
  u_referrerCode :: jsval

record click =
  k_code :: string
  k_ip :: string

record order =
  o_id :: nat
  o_amount :: jsnum
  o_code :: jsval
  o_buyerEmail :: jsval

record commission =
  c_orderId :: nat
  c_earnerUserId :: nat
  c_level :: nat
  c_percent :: jsnum
  c_amount :: jsnum

record payout =
  p_userId :: nat
  p_level :: nat
  p_amount :: jsnum

record state =
  users :: "user list"
  clicks :: "click list"
  orders :: "order list"
  commissions :: "commission list"

definition init :: state where
  "init = \<lparr>users = [], clicks = [], orders = [], commissions = []\<rparr>"

definition COMMISSION_LEVELS :: "jsnum list" where
  "COMMISSION_LEVELS = [lit (10 / 100), lit (5 / 100), lit (2 / 100)]"

text \<open>\<open>COMMISSION_LEVELS[i] ?? 0\<close>: an index past the end reads \<open>undefined\<close>.\<close>

definition level_percent :: "nat \<Rightarrow> jsnum" where
  "level_percent i =
     (if i < length COMMISSION_LEVELS then COMMISSION_LEVELS ! i else Fin 0)"

section \<open>Helpers\<close>

text \<open>\<open>users.find(u => u.code === code)\<close>: the first match, or nothing.\<close>

definition findUserByCode :: "user list \<Rightarrow> jsval \<Rightarrow> user option" where
  "findUserByCode us code = find (\<lambda>u. strict_eq (JStr (u_code u)) code) us"

text \<open>
  The loop of \<open>buildUpline\<close>, with its variables \<open>i\<close>, \<open>currentCode\<close> and \<open>upline\<close>;
  each \<open>break\<close> returns the list built so far.
\<close>

function buildUpline_loop ::
  "user list \<Rightarrow> nat \<Rightarrow> nat \<Rightarrow> jsval \<Rightarrow> user list \<Rightarrow> user list" where
  "buildUpline_loop us levels i currentCode upline =
     (if i < levels then
        (if \<not> truthy currentCode then upline
         else (case findUserByCode us currentCode of
                 None \<Rightarrow> upline
               | Some referrer \<Rightarrow>
                   buildUpline_loop us levels (i + 1)
                     (js_or (u_referrerCode referrer) JNull) (upline @ [referrer])))
      else upline)"
  by pat_completeness auto
termination
  by (relation "measure (\<lambda>(us, levels, i, currentCode, upline). levels - i)") auto

definition buildUpline :: "user list \<Rightarrow> jsval \<Rightarrow> nat \<Rightarrow> user list" where
  "buildUpline us refCode levels = buildUpline_loop us levels 0 refCode []"

section \<open>POST /order\<close>

record order_body =
  b_amount :: jsval
  b_code :: jsval
  b_buyerEmail :: jsval

text \<open>
  An answer of the handler: an error it sends itself, the order's summary as handed to
  \<open>res.json\<close> (whose serialisation writes \<open>NaN\<close> and the infinities as
  \<open>null\<close>), or an exception that escapes it, which Express answers with a 500.
\<close>

datatype response =
    Error nat string
  | OrderCreated nat jsnum jsval "payout list"
  | Thrown

fun status :: "response \<Rightarrow> nat" where
  "status (Error c _) = c"
| "status (OrderCreated _ _ _ _) = 200"
| "status Thrown = 500"

fun payouts_of :: "response \<Rightarrow> payout list" where
  "payouts_of (OrderCreated _ _ _ ps) = ps"
| "payouts_of _ = []"

text \<open>
  The level-1 block: the code owner earns \<open>COMMISSION_LEVELS[0]\<close> of the amount, recorded
  only when the product is \<open>> 0\<close>.
\<close>

definition pay_owner ::
  "order \<Rightarrow> user \<Rightarrow> commission list \<times> payout list \<Rightarrow> commission list \<times> payout list" where
  "pay_owner ord owner acc =
     (let l1Percent = level_percent 0;
          l1Amount = js_mul (o_amount ord) l1Percent
      in if js_gt l1Amount (Fin 0) then
           (fst acc @ [\<lparr>c_orderId = o_id ord, c_earnerUserId = u_id owner, c_level = 1,
                        c_percent = l1Percent, c_amount = l1Amount\<rparr>],
            snd acc @ [\<lparr>p_userId = u_id owner, p_level = 1, p_amount = l1Amount\<rparr>])
         else acc)"

text \<open>\<open>upline.forEach((uplineUser, idx) => ...)\<close>, from index \<open>idx\<close> on.\<close>

fun pay_upline ::
  "order \<Rightarrow> user list \<Rightarrow> nat \<Rightarrow> commission list \<times> payout list
     \<Rightarrow> commission list \<times> payout list" where
  "pay_upline ord [] idx acc = acc"
| "pay_upline ord (uplineUser # rest) idx acc =
     (let level = idx + 2;
          percent = level_percent (idx + 1);
          amt = js_mul (o_amount ord) percent
      in pay_upline ord rest (idx + 1)
           (if js_gt amt (Fin 0) then
              (fst acc @ [\<lparr>c_orderId = o_id ord, c_earnerUserId = u_id uplineUser,
                           c_level = level, c_percent = percent, c_amount = amt\<rparr>],
               snd acc @ [\<lparr>p_userId = u_id uplineUser, p_level = level, p_amount = amt\<rparr>])
            else acc))"

text \<open>
  The handler: the state after the request and the response. A missing body is a body
  whose three fields are \<open>JUndefined\<close>. \<open>Number(amount)\<close> is evaluated inside the
  order literal, before the first push.
\<close>

definition post_order :: "runtime \<Rightarrow> order_body \<Rightarrow> state \<Rightarrow> state \<times> response" where
  "post_order rt body s =
     (let amount = b_amount body; code = b_code body; buyerEmail = b_buyerEmail body
      in if \<not> truthy amount \<or> \<not> truthy code then
           (s, Error 400 ''amount & code required'')
         else
           (case findUserByCode (users s) code of
              None \<Rightarrow> (s, Error 404 ''Referral code not found'')
            | Some owner \<Rightarrow>
                (case Number_js rt amount of
                   None \<Rightarrow> (s, Thrown)
                 | Some n \<Rightarrow>
                     (let ord = \<lparr>o_id = length (orders s) + 1,
                                 o_amount = n,
                                 o_code = code,
                                 o_buyerEmail = js_or buyerEmail JNull\<rparr>;
                          upline = buildUpline (users s) (u_referrerCode owner)
                                     (length COMMISSION_LEVELS);
                          acc = pay_upline ord upline 0
                                  (pay_owner ord owner (commissions s, []))
                      in (s\<lparr>orders := orders s @ [ord], commissions := fst acc\<rparr>,
                          OrderCreated (o_id ord) (o_amount ord) code (snd acc))))))"

text \<open>The order object the handler builds and appends, for the converted amount \<open>n\<close>.\<close>

definition new_order :: "jsnum \<Rightarrow> order_body \<Rightarrow> state \<Rightarrow> order" where
  "new_order n body s =
     \<lparr>o_id = length (orders s) + 1, o_amount = n,
      o_code = b_code body, o_buyerEmail = js_or (b_buyerEmail body) JNull\<rparr>"

section \<open>The other routes and reachable states\<close>

text \<open>
  \<open>POST /auth/signup\<close> appends a user; \<open>nanoid\<close>'s code and \<open>bcrypt\<close>'s hash are
  inputs of the step (\<open>None\<close>: the hash was rejected and the handler never resumes).
  \<open>GET /click/:code\<close> appends a click. The remaining routes read the arrays only.
  The signup handler suspends once, at the hash, between its checks and its push; the
  step below runs it in one piece. The order handler never suspends.
\<close>

datatype request =
    Signup jsval jsval jsval jsval string "string option"
  | Click string string
  | Order order_body
  | Login jsval jsval
  | Me
  | Stats string
  | MeStats
  | Root

definition signup ::
  "jsval \<Rightarrow> jsval \<Rightarrow> jsval \<Rightarrow> jsval \<Rightarrow> string \<Rightarrow> string option \<Rightarrow> state \<Rightarrow> state" where
  "signup name email password ref code hash s =
     (if \<not> truthy email \<or> \<not> truthy password \<or> \<not> truthy name then s
      else if list_ex (\<lambda>u. strict_eq (u_email u) email) (users s) then s
      else (case hash of
              None \<Rightarrow> s
            | Some passwordHash \<Rightarrow>
                s\<lparr>users := users s @
                    [\<lparr>u_id = length (users s) + 1, u_name = name, u_email = email,
                      u_passwordHash = passwordHash, u_code = code,
                      u_referrerCode = js_or ref JNull\<rparr>]\<rparr>))"

definition click_route :: "string \<Rightarrow> string \<Rightarrow> state \<Rightarrow> state" where
  "click_route code ip s =
     (case findUserByCode (users s) (JStr code) of
        None \<Rightarrow> s
      | Some owner \<Rightarrow> s\<lparr>clicks := clicks s @ [\<lparr>k_code = code, k_ip = ip\<rparr>]\<rparr>)"

fun handle :: "runtime \<Rightarrow> request \<Rightarrow> state \<Rightarrow> state" where
  "handle rt (Signup name email password ref code hash) s =
     signup name email password ref code hash s"
| "handle rt (Click code ip) s = click_route code ip s"
| "handle rt (Order body) s = fst (post_order rt body s)"
| "handle rt _ s = s"

text \<open>The state after a sequence of requests, handled one after the other.\<close>

definition run :: "runtime \<Rightarrow> request list \<Rightarrow> state \<Rightarrow> state" where
  "run rt rs s = foldl (\<lambda>s r. handle rt r s) s rs"

text \<open>\<open>reduce((sum, c) => sum + c.amount, 0)\<close>, as the statistics routes total amounts.\<close>

definition js_sum :: "jsnum list \<Rightarrow> jsnum" where
  "js_sum xs = foldl js_add (Fin 0) xs"

section \<open>Sample directories\<close>

text \<open>
  A refers B refers C refers D; E was referred with a code nobody owns; F carries its own
  code as referrer.
\<close>

definition mk_user :: "nat \<Rightarrow> string \<Rightarrow> jsval \<Rightarrow> user" where
  "mk_user i code ref =
     \<lparr>u_id = i, u_name = JStr code, u_email = JStr (code @ ''@x.org''), u_passwordHash = ''h'',
      u_code = code, u_referrerCode = ref\<rparr>"

definition abc_users :: "user list" where
  "abc_users =
     [mk_user 1 ''AAA'' JNull,
      mk_user 2 ''BBB'' (JStr ''AAA''),
      mk_user 3 ''CCC'' (JStr ''BBB'')]"

definition sample_users :: "user list" where
  "sample_users =
     abc_users @
     [mk_user 4 ''DDD'' (JStr ''CCC''),
      mk_user 5 ''EEE'' (JStr ''ZZZ''),
      mk_user 6 ''FFF'' (JStr ''FFF'')]"

definition abc_state :: state where
  "abc_state = \<lparr>users = abc_users, clicks = [], orders = [], commissions = []\<rparr>"

definition sample_state :: state where
  "sample_state = \<lparr>users = sample_users, clicks = [], orders = [], commissions = []\<rparr>"

definition mk_body :: "jsval \<Rightarrow> string \<Rightarrow> order_body" where
  "mk_body amount code =
     \<lparr>b_amount = amount, b_code = JStr code, b_buyerEmail = JUndefined\<rparr>"

text \<open>
  A runtime for the closed examples, none of which converts a string or an object to a
  number with a result that matters.
\<close>

definition sample_runtime :: runtime where
  "sample_runtime =
     \<lparr>StringToNumber = (\<lambda>s. NaN), ObjectToNumber = (\<lambda>obj. None)\<rparr>"

text \<open>A signup, a referred signup, a click and two orders, one of them negative.\<close>

definition sample_requests :: "request list" where
  "sample_requests =
     [Signup (JStr ''a'') (JStr ''a@x.org'') (JStr ''pw'') JUndefined ''AAAAAAAA'' (Some ''h1''),
      Signup (JStr ''b'') (JStr ''b@x.org'') (JStr ''pw'') (JStr ''AAAAAAAA'') ''BBBBBBBB''
        (Some ''h2''),
      Click ''BBBBBBBB'' ''10.0.0.1'',
      Order (mk_body (JNum (Fin 100)) ''BBBBBBBB''),
      Order (mk_body (JNum (Fin (- 7))) ''AAAAAAAA'')]"

text \<open>An order of amount 37 on C's code, whose owner has two ancestors.\<close>

definition order_37 :: "state \<times> response" where
  "order_37 = post_order sample_runtime (mk_body (JNum (Fin 37)) ''CCC'') abc_state"

section \<open>What every recorded commission satisfies\<close>

definition recorded_ok :: "commission \<Rightarrow> bool" where
  "recorded_ok c \<longleftrightarrow>
     js_gt (c_amount c) (Fin 0) \<and> 1 \<le> c_level c \<and> c_level c \<le> length COMMISSION_LEVELS"

section \<open>What an order owes\<close>

text \<open>
  The commission records an order owes to a list of earners, the first of them at
  schedule index \<open>i\<close>: one record for each earner whose product is \<open>> 0\<close>. The payout
  entry of a record repeats its earner, level and amount.
\<close>

fun due :: "order \<Rightarrow> user list \<Rightarrow> nat \<Rightarrow> commission list" where
  "due ord [] i = []"
| "due ord (u # us) i =
     (if js_gt (js_mul (o_amount ord) (level_percent i)) (Fin 0) then
        [\<lparr>c_orderId = o_id ord, c_earnerUserId = u_id u, c_level = i + 1,
          c_percent = level_percent i,
          c_amount = js_mul (o_amount ord) (level_percent i)\<rparr>]
      else []) @ due ord us (i + 1)"

definition to_payout :: "commission \<Rightarrow> payout" where
  "to_payout c = \<lparr>p_userId = c_earnerUserId c, p_level = c_level c, p_amount = c_amount c\<rparr>"

section \<open>Rounding to a double\<close>

lemma bitlen_powi_bounds:
  assumes "0 < (n::int)"
  shows "2 powi (bitlen n - 1) \<le> (of_int n :: rat)" and "(of_int n :: rat) < 2 powi bitlen n"
proof -
  have b: "1 \<le> bitlen n"
    using assms bitlen_eq_zero_iff [of n] bitlen_nonneg [of n] by linarith
  from bitlen_bounds [OF assms] have
    "(of_int (2 ^ nat (bitlen n - 1)) :: rat) \<le> of_int n"
    "(of_int n :: rat) < of_int (2 ^ nat (bitlen n))"
    by (simp_all only: of_int_le_iff of_int_less_iff)
  then show "2 powi (bitlen n - 1) \<le> (of_int n :: rat)"
    and "(of_int n :: rat) < 2 powi bitlen n"
    using b by (simp_all add: power_int_nonneg_exp)
qed

lemma floor_log2_bounds:
  assumes "0 < x"
  shows "2 powi floor_log2 x \<le> x" and "x < 2 powi (floor_log2 x + 1)"
proof -
  obtain n d where q: "quotient_of x = (n, d)"
    by (cases "quotient_of x")
  have d: "0 < d" using quotient_of_denom_pos [OF q] .
  have x: "x = of_int n / of_int d" using quotient_of_div [OF q] .
  have n: "0 < n" using assms d by (simp add: x zero_less_divide_iff)
  define k where "k = bitlen n - bitlen d"
  note N = bitlen_powi_bounds [OF n] and D = bitlen_powi_bounds [OF d]
  have dpos: "(0::rat) < of_int d" using d by simp
  have "x < 2 powi bitlen n / 2 powi (bitlen d - 1)"
    unfolding x using N(2) D(1) dpos
    by (intro frac_less) (simp_all add: n less_imp_le)
  also have "\<dots> = 2 powi (k + 1)"
    by (simp add: k_def power_int_diff [symmetric] algebra_simps)
  finally have up: "x < 2 powi (k + 1)" .
  have "2 powi (bitlen n - 1) / 2 powi bitlen d < x"
    unfolding x using N(1) D(2) dpos
    by (intro frac_less2) simp_all
  moreover have "2 powi (bitlen n - 1) / 2 powi bitlen d = (2::rat) powi (k - 1)"
    by (simp add: k_def power_int_diff [symmetric] algebra_simps)
  ultimately have lo: "2 powi (k - 1) < x" by simp
  have f: "floor_log2 x = (if 2 powi k \<le> x then k else k - 1)"
    by (simp add: floor_log2_def q k_def)
  show "2 powi floor_log2 x \<le> x"
    using lo by (simp add: f less_imp_le)
  show "x < 2 powi (floor_log2 x + 1)"
    using up by (auto simp: f not_le)
qed

lemma floor_log2_eqI:
  assumes "2 powi k \<le> x" and "x < 2 powi (k + 1)"
  shows "floor_log2 x = k"
proof -
  have "(0::rat) < 2 powi k" by simp
  with assms(1) have pos: "0 < x" by linarith
  note B = floor_log2_bounds [OF pos]
  have "(2::rat) powi floor_log2 x < 2 powi (k + 1)"
    using B(1) assms(2) by linarith
  then have a: "floor_log2 x < k + 1"
    using power_int_increasing [of "k + 1" "floor_log2 x" "2::rat"] by force
  have "(2::rat) powi k < 2 powi (floor_log2 x + 1)"
    using B(2) assms(1) by linarith
  then have b: "k < floor_log2 x + 1"
    using power_int_increasing [of "floor_log2 x + 1" k "2::rat"] by force
  from a b show ?thesis by linarith
qed

text \<open>Rounding a value whose binade is known.\<close>

lemma round_double_at:
  assumes "2 powi k \<le> \<bar>x\<bar>" and "\<bar>x\<bar> < 2 powi (k + 1)"
  shows "round_double x =
     (let e = max (k - 52) (- 1074);
          r = of_int (round_half_even (\<bar>x\<bar> / 2 powi e)) * 2 powi e
      in if 2 ^ 1024 \<le> r then (if 0 < x then PInf else NInf)
         else Fin (sgn x * r))"
proof -
  have "(0::rat) < 2 powi k" by simp
  with assms(1) have "0 < \<bar>x\<bar>" by linarith
  then have "x \<noteq> 0" by simp
  then show ?thesis
    by (simp add: round_double_def floor_log2_eqI [OF assms])
qed

lemma round_double_0 [simp]: "round_double 0 = Fin 0"
  by (simp add: round_double_def)

lemma round_half_even_ge1: "1 / 2 < q \<Longrightarrow> 1 \<le> round_half_even q"
proof -
  assume q: "1 / 2 < q"
  then have "0 \<le> \<lfloor>q\<rfloor>" by simp
  show ?thesis
  proof (cases "\<lfloor>q\<rfloor> = 0")
    case True
    with q show ?thesis by (simp add: round_half_even_def)
  next
    case False
    with \<open>0 \<le> \<lfloor>q\<rfloor>\<close> have "1 \<le> \<lfloor>q\<rfloor>" by linarith
    then show ?thesis by (simp add: round_half_even_def Let_def)
  qed
qed

lemma round_half_even_0: "0 \<le> q \<Longrightarrow> q \<le> 1 / 2 \<Longrightarrow> round_half_even q = 0"
proof -
  assume q: "0 \<le> q" "q \<le> 1 / 2"
  then have "\<lfloor>q\<rfloor> = 0" by (simp add: floor_eq_iff)
  with q show ?thesis by (simp add: round_half_even_def)
qed

lemma round_half_even_nonneg: "0 \<le> q \<Longrightarrow> 0 \<le> round_half_even q"
  by (simp add: round_half_even_def Let_def)

text \<open>A rounded value is \<open>> 0\<close> exactly when the exact one exceeds half the least double.\<close>

lemma round_double_pos_iff:
  "js_gt (round_double x) (Fin 0) \<longleftrightarrow> 2 powi (- 1075) < x"
proof (cases "2 powi (- 1075) < x")
  case True
  have "(0::rat) < 2 powi (- 1075)" by simp
  with True have pos: "0 < x" by linarith
  define e where "e = max (floor_log2 x - 52) (- 1074)"
  have "1 / 2 < x / 2 powi e"
  proof (cases "floor_log2 x - 52 \<le> - 1074")
    case True
    then have "e = - 1074" by (simp add: e_def)
    moreover have "(2::rat) powi (- 1075) = 2 powi (- 1074) / 2"
      by (simp add: power_int_minus_divide)
    ultimately show ?thesis
      using \<open>2 powi (- 1075) < x\<close> by (simp add: field_simps)
  next
    case False
    then have e: "e = floor_log2 x - 52" by (simp add: e_def)
    have "(2::rat) powi floor_log2 x = 2 powi e * 2 ^ 52"
      by (simp add: e power_int_diff)
    with floor_log2_bounds(1) [OF pos] have "2 powi e * 2 ^ 52 \<le> x" by simp
    then have "2 ^ 52 \<le> x / 2 powi e"
      by (simp add: field_simps)
    moreover have "(1::rat) \<le> 2 ^ 52" by simp
    ultimately show ?thesis by linarith
  qed
  then have "1 \<le> round_half_even (x / 2 powi e)"
    by (rule round_half_even_ge1)
  then have "(0::rat) < of_int (round_half_even (x / 2 powi e)) * 2 powi e"
    by (simp add: zero_less_mult_iff)
  with pos True show ?thesis
    by (simp add: round_double_def Let_def e_def [symmetric])
next
  case False
  show ?thesis
  proof (cases "0 < x")
    case True
    with False have le: "x \<le> 2 powi (- 1075)" by simp
    have "floor_log2 x \<le> - 1075"
    proof (rule ccontr)
      assume "\<not> floor_log2 x \<le> - 1075"
      then have "(2::rat) powi (- 1074) \<le> 2 powi floor_log2 x"
        by (intro power_int_increasing) simp_all
      with floor_log2_bounds(1) [OF True] le have "(2::rat) powi (- 1074) \<le> 2 powi (- 1075)"
        by linarith
      then show False by (simp add: power_int_minus_divide)
    qed
    then have e: "max (floor_log2 x - 52) (- 1074) = - 1074" by simp
    have "(2::rat) powi (- 1075) = 2 powi (- 1074) / 2"
      by (simp add: power_int_minus_divide)
    with le have "x / 2 powi (- 1074) \<le> 1 / 2"
      by (simp add: field_simps)
    moreover have "0 \<le> x / 2 powi (- 1074)"
      using True by simp
    ultimately have "round_half_even (x / 2 powi (- 1074)) = 0"
      by (intro round_half_even_0)
    with True False show ?thesis
      by (simp add: round_double_def Let_def e del: power_int_numeral_neg_numeral)
  next
    case neg: False
    have "0 \<le> round_half_even (\<bar>x\<bar> / 2 powi max (floor_log2 \<bar>x\<bar> - 52) (- 1074))"
      by (intro round_half_even_nonneg) simp
    then have "(0::rat) \<le> of_int (round_half_even (\<bar>x\<bar> / 2 powi max (floor_log2 \<bar>x\<bar> - 52) (- 1074)))
        * 2 powi max (floor_log2 \<bar>x\<bar> - 52) (- 1074)"
      by simp
    with neg False show ?thesis
      by (auto simp: round_double_def Let_def sgn_if mult_le_0_iff not_less)
  qed
qed

text \<open>Evaluating the rounding of a numeral: the binades the examples need.\<close>

lemma floor_numeral_div:
  "\<lfloor>numeral a / numeral b :: rat\<rfloor> = numeral a div numeral b"
  using floor_divide_of_int_eq [of "numeral a" "numeral b", where ?'a = rat] by simp

lemmas double_eval =
  round_half_even_def Let_def floor_numeral_div
  round_double_at [where k = "- 6"] round_double_at [where k = "- 5"]
  round_double_at [where k = "- 4"] round_double_at [where k = "- 3"]
  round_double_at [where k = "- 2"] round_double_at [where k = "- 1"]
  round_double_at [where k = 0] round_double_at [where k = 1]
  round_double_at [where k = 2] round_double_at [where k = 3]

lemma lit_values:
  "lit (1 / 10) = Fin (3602879701896397 / 2 ^ 55)"
  "lit (1 / 20) = Fin (3602879701896397 / 2 ^ 56)"
  "lit (1 / 50) = Fin (5764607523034235 / 2 ^ 58)"
  by (simp_all add: lit_def double_eval)

section \<open>The schedule\<close>

lemma COMMISSION_LEVELS_length: "length COMMISSION_LEVELS = Suc (Suc (Suc 0))"
  by (simp add: COMMISSION_LEVELS_def)

lemma level_percent_0: "level_percent 0 = lit (10 / 100)"
  by (simp add: level_percent_def COMMISSION_LEVELS_def)

lemma level_percent_1: "level_percent (Suc 0) = lit (5 / 100)"
  by (simp add: level_percent_def COMMISSION_LEVELS_def)

lemma level_percent_2: "level_percent (Suc (Suc 0)) = lit (2 / 100)"
  by (simp add: level_percent_def COMMISSION_LEVELS_def)

lemma level_percent_past: "3 \<le> i \<Longrightarrow> level_percent i = Fin 0"
  by (simp add: level_percent_def COMMISSION_LEVELS_def)

lemma js_gt_mul_zero: "\<not> js_gt (js_mul n (Fin 0)) (Fin 0)"
  by (cases n) auto

text \<open>
  When a product with a schedule entry is \<open>> 0\<close>: from \<open>5\<close>, \<open>10\<close> and \<open>25\<close> times the
  least double \<open>2^-1074\<close> on, for 0.10, 0.05 and 0.02.
\<close>

lemma guard_iff:
  "js_gt (js_mul (Fin a) (lit (1 / 10))) (Fin 0) \<longleftrightarrow>
     2 powi (- 1075) < a * (3602879701896397 / 2 ^ 55)"
  "js_gt (js_mul (Fin a) (lit (1 / 20))) (Fin 0) \<longleftrightarrow>
     2 powi (- 1075) < a * (3602879701896397 / 2 ^ 56)"
  "js_gt (js_mul (Fin a) (lit (1 / 50))) (Fin 0) \<longleftrightarrow>
     2 powi (- 1075) < a * (5764607523034235 / 2 ^ 58)"
  by (simp_all only: lit_values js_mul.simps round_double_pos_iff)

lemma guard_from:
  "js_le (Fin (5 / 2 ^ 1074)) n \<Longrightarrow> js_gt (js_mul n (lit (1 / 10))) (Fin 0)"
  "js_le (Fin (10 / 2 ^ 1074)) n \<Longrightarrow> js_gt (js_mul n (lit (1 / 20))) (Fin 0)"
  "js_le (Fin (25 / 2 ^ 1074)) n \<Longrightarrow> js_gt (js_mul n (lit (1 / 50))) (Fin 0)"
proof -
  have mono: "m \<le> a \<Longrightarrow> t < m * c \<Longrightarrow> 0 \<le> c \<Longrightarrow> t < a * c" for m a c t :: rat
    using mult_right_mono [of m a c] by linarith
  show "js_le (Fin (5 / 2 ^ 1074)) n \<Longrightarrow> js_gt (js_mul n (lit (1 / 10))) (Fin 0)"
  proof (cases n)
    case (Fin a)
    assume "js_le (Fin (5 / 2 ^ 1074)) n"
    with Fin have "5 / 2 ^ 1074 \<le> a" by simp
    then have "2 powi (- 1075) < a * (3602879701896397 / 2 ^ 55)"
      by (rule mono) simp_all
    with Fin show ?thesis by (simp only: guard_iff)
  qed (simp_all add: lit_values)
  show "js_le (Fin (10 / 2 ^ 1074)) n \<Longrightarrow> js_gt (js_mul n (lit (1 / 20))) (Fin 0)"
  proof (cases n)
    case (Fin a)
    assume "js_le (Fin (10 / 2 ^ 1074)) n"
    with Fin have "10 / 2 ^ 1074 \<le> a" by simp
    then have "2 powi (- 1075) < a * (3602879701896397 / 2 ^ 56)"
      by (rule mono) simp_all
    with Fin show ?thesis by (simp only: guard_iff)
  qed (simp_all add: lit_values)
  show "js_le (Fin (25 / 2 ^ 1074)) n \<Longrightarrow> js_gt (js_mul n (lit (1 / 50))) (Fin 0)"
  proof (cases n)
    case (Fin a)
    assume "js_le (Fin (25 / 2 ^ 1074)) n"
    with Fin have "25 / 2 ^ 1074 \<le> a" by simp
    then have "2 powi (- 1075) < a * (5764607523034235 / 2 ^ 58)"
      by (rule mono) simp_all
    with Fin show ?thesis by (simp only: guard_iff)
  qed (simp_all add: lit_values)
qed

section \<open>The upline walk\<close>

declare buildUpline_loop.simps [simp del]

lemma buildUpline_loop_acc:
  "buildUpline_loop us levels i c acc = acc @ buildUpline_loop us levels i c []"
proof (induction "levels - i" arbitrary: i c acc)
  case 0
  then have "\<not> i < levels" by simp
  then show ?case by (simp add: buildUpline_loop.simps)
next
  case (Suc n)
  then have lt: "i < levels" and n: "n = levels - (i + 1)" by simp_all
  show ?case
  proof (cases "findUserByCode us c")
    case None
    then show ?thesis by (simp add: buildUpline_loop.simps [of us levels i c])
  next
    case (Some r)
    let ?c' = "js_or (u_referrerCode r) JNull"
    have "buildUpline_loop us levels (i + 1) ?c' (acc @ [r])
            = (acc @ [r]) @ buildUpline_loop us levels (i + 1) ?c' []"
      using Suc.hyps(1) [OF n] .
    moreover have "buildUpline_loop us levels (i + 1) ?c' [r]
            = [r] @ buildUpline_loop us levels (i + 1) ?c' []"
      using Suc.hyps(1) [OF n] .
    ultimately show ?thesis
      using Some lt by (simp add: buildUpline_loop.simps [of us levels i c])
  qed
qed

lemma buildUpline_loop_shift:
  "buildUpline_loop us (Suc levels) (Suc i) c acc = buildUpline_loop us levels i c acc"
proof (induction us levels i c acc rule: buildUpline_loop.induct)
  case (1 us levels i c acc)
  show ?case
  proof (cases "findUserByCode us c")
    case None
    then show ?thesis
      by (simp add: buildUpline_loop.simps [of us _ _ c])
  next
    case (Some r)
    show ?thesis
    proof (cases "i < levels \<and> truthy c")
      case True
      with Some "1.IH" [of r] show ?thesis
        by (simp add: buildUpline_loop.simps [of us _ _ c])
    next
      case False
      then show ?thesis
        by (auto simp add: buildUpline_loop.simps [of us _ _ c])
    qed
  qed
qed

lemma buildUpline_0 [simp]: "buildUpline us c 0 = []"
  by (simp add: buildUpline_def buildUpline_loop.simps)

lemma buildUpline_Suc:
  "buildUpline us c (Suc n) =
     (if \<not> truthy c then []
      else (case findUserByCode us c of
              None \<Rightarrow> []
            | Some r \<Rightarrow> r # buildUpline us (js_or (u_referrerCode r) JNull) n))"
proof (cases "findUserByCode us c")
  case None
  then show ?thesis
    by (simp add: buildUpline_def buildUpline_loop.simps [of us _ _ c])
next
  case (Some r)
  have "buildUpline_loop us (Suc n) (Suc 0) (js_or (u_referrerCode r) JNull) [r]
          = r # buildUpline_loop us n 0 (js_or (u_referrerCode r) JNull) []"
    using buildUpline_loop_acc [of us "Suc n" "Suc 0" _ "[r]"]
    by (simp add: buildUpline_loop_shift)
  with Some show ?thesis
    by (simp add: buildUpline_def buildUpline_loop.simps [of us "Suc n" 0 c])
qed

lemma buildUpline_length: "length (buildUpline us c n) \<le> n"
  by (induction n arbitrary: c) (auto simp: buildUpline_Suc split: option.splits)

section \<open>The order handler, branch by branch\<close>

lemma due_past: "3 \<le> i \<Longrightarrow> due ord us i = []"
  by (induction us arbitrary: i) (simp_all add: level_percent_past js_gt_mul_zero)

lemma due_level: "c \<in> set (due ord us i) \<Longrightarrow> i + 1 \<le> c_level c"
  by (induction us arbitrary: i) (fastforce split: if_splits)+

lemma due_positive: "c \<in> set (due ord us i) \<Longrightarrow> js_gt (c_amount c) (Fin 0)"
  by (induction us arbitrary: i) (auto split: if_splits)

lemma pay_owner_due:
  "pay_owner ord owner acc =
     (fst acc @ due ord [owner] 0, snd acc @ map to_payout (due ord [owner] 0))"
  by (simp add: pay_owner_def Let_def to_payout_def)

lemma pay_upline_due:
  "pay_upline ord us idx acc =
     (fst acc @ due ord us (idx + 1), snd acc @ map to_payout (due ord us (idx + 1)))"
  by (induction us arbitrary: idx acc) (simp_all add: Let_def to_payout_def)

lemma pay_all:
  "pay_upline ord us 0 (pay_owner ord owner (cs, [])) =
     (cs @ due ord (owner # us) 0, map to_payout (due ord (owner # us) 0))"
  by (simp add: pay_upline_due pay_owner_due)

lemma new_order_simps [simp]:
  "o_id (new_order n body s) = length (orders s) + 1"
  "o_amount (new_order n body s) = n"
  by (simp_all add: new_order_def)

lemma post_order_accepted:
  assumes "truthy (b_amount body)" "truthy (b_code body)"
    and "findUserByCode (users s) (b_code body) = Some owner"
    and "Number_js rt (b_amount body) = Some n"
  shows "post_order rt body s =
     (s\<lparr>orders := orders s @ [new_order n body s],
        commissions := commissions s @
          due (new_order n body s)
            (owner # buildUpline (users s) (u_referrerCode owner) (length COMMISSION_LEVELS)) 0\<rparr>,
      OrderCreated (length (orders s) + 1) n (b_code body)
        (map to_payout
          (due (new_order n body s)
            (owner # buildUpline (users s) (u_referrerCode owner) (length COMMISSION_LEVELS))
            0)))"
  using assms
  by (simp add: post_order_def Let_def new_order_def pay_all del: due.simps)

lemma status_200:
  "status (snd (post_order rt body s)) = 200 \<longleftrightarrow>
     truthy (b_amount body) \<and> truthy (b_code body) \<and>
     findUserByCode (users s) (b_code body) \<noteq> None \<and>
     Number_js rt (b_amount body) \<noteq> None"
  by (auto simp: post_order_def Let_def split: option.splits)

lemma upline_none:
  "\<not> truthy ref \<or> findUserByCode us ref = None \<Longrightarrow>
     buildUpline us ref (length COMMISSION_LEVELS) = []"
  by (auto simp: COMMISSION_LEVELS_length buildUpline_Suc)

lemma upline_two:
  assumes "truthy ref" "findUserByCode us ref = Some p1"
    and "truthy (u_referrerCode p1)" "findUserByCode us (u_referrerCode p1) = Some p2"
  shows "\<exists>rest. buildUpline us ref (length COMMISSION_LEVELS) = p1 # p2 # rest"
  using assms by (simp add: COMMISSION_LEVELS_length buildUpline_Suc js_or_def)

lemma due_one:
  "due ord [owner] 0 =
     (if js_gt (js_mul (o_amount ord) (lit (10 / 100))) (Fin 0) then
        [\<lparr>c_orderId = o_id ord, c_earnerUserId = u_id owner, c_level = 1,
          c_percent = lit (10 / 100), c_amount = js_mul (o_amount ord) (lit (10 / 100))\<rparr>]
      else [])"
  by (simp add: level_percent_0)

lemma due_three:
  "due ord (owner # p1 # p2 # rest) 0 =
     filter (\<lambda>c. js_gt (c_amount c) (Fin 0))
       [\<lparr>c_orderId = o_id ord, c_earnerUserId = u_id owner, c_level = 1,
         c_percent = lit (10 / 100), c_amount = js_mul (o_amount ord) (lit (10 / 100))\<rparr>,
        \<lparr>c_orderId = o_id ord, c_earnerUserId = u_id p1, c_level = 2,
         c_percent = lit (5 / 100), c_amount = js_mul (o_amount ord) (lit (5 / 100))\<rparr>,
        \<lparr>c_orderId = o_id ord, c_earnerUserId = u_id p2, c_level = 3,
         c_percent = lit (2 / 100), c_amount = js_mul (o_amount ord) (lit (2 / 100))\<rparr>]"
  by (simp add: level_percent_0 level_percent_1 level_percent_2 due_past)

lemma js_le_lower: "a \<le> b \<Longrightarrow> js_le (Fin b) n \<Longrightarrow> js_le (Fin a) n"
  by (cases n) auto

lemma guards_from_25:
  assumes "js_le (Fin (25 / 2 ^ 1074)) n"
  shows "js_gt (js_mul n (lit (1 / 10))) (Fin 0)"
    and "js_gt (js_mul n (lit (1 / 20))) (Fin 0)"
    and "js_gt (js_mul n (lit (1 / 50))) (Fin 0)"
proof -
  have a: "js_le (Fin (5 / 2 ^ 1074)) n"
    using js_le_lower [OF _ assms, of "5 / 2 ^ 1074"] by simp
  have b: "js_le (Fin (10 / 2 ^ 1074)) n"
    using js_le_lower [OF _ assms, of "10 / 2 ^ 1074"] by simp
  show "js_gt (js_mul n (lit (1 / 10))) (Fin 0)"
    using a by (rule guard_from)
  show "js_gt (js_mul n (lit (1 / 20))) (Fin 0)"
    using b by (rule guard_from)
  show "js_gt (js_mul n (lit (1 / 50))) (Fin 0)"
    using assms by (rule guard_from)
qed

lemma due_subseq:
  "subseq (map (\<lambda>c. (c_level c, c_amount c)) (due ord us 0))
     [(1, js_mul (o_amount ord) (lit (10 / 100))),
      (2, js_mul (o_amount ord) (lit (5 / 100))),
      (3, js_mul (o_amount ord) (lit (2 / 100)))]"
proof (cases us)
  case Nil
  then show ?thesis by simp
next
  case a: (Cons a us1)
  show ?thesis
  proof (cases us1)
    case Nil
    with a show ?thesis by (simp add: level_percent_0)
  next
    case b: (Cons b us2)
    show ?thesis
    proof (cases us2)
      case Nil
      with a b show ?thesis by (simp add: level_percent_0 level_percent_1)
    next
      case (Cons c us3)
      with a b show ?thesis
        by (simp add: level_percent_0 level_percent_1 level_percent_2 due_past)
    qed
  qed
qed

section \<open>The invariant of the commission log\<close>

lemma due_ok: "list_all recorded_ok (due ord us i)"
proof (induction us arbitrary: i)
  case Nil
  then show ?case by simp
next
  case (Cons u us)
  show ?case
  proof (cases "js_gt (js_mul (o_amount ord) (level_percent i)) (Fin 0)")
    case False
    with Cons show ?thesis by simp
  next
    case True
    have "i < 3"
    proof (rule ccontr)
      assume "\<not> i < 3"
      then have "level_percent i = Fin 0"
        by (simp add: level_percent_past)
      with True show False by (simp add: js_gt_mul_zero)
    qed
    then have "i + 1 \<le> length COMMISSION_LEVELS"
      by (simp add: COMMISSION_LEVELS_length)
    with True have
      "recorded_ok \<lparr>c_orderId = o_id ord, c_earnerUserId = u_id u, c_level = i + 1,
           c_percent = level_percent i,
           c_amount = js_mul (o_amount ord) (level_percent i)\<rparr>"
      by (simp add: recorded_ok_def)
    with True Cons show ?thesis by simp
  qed
qed

lemma post_order_ok:
  "list_all recorded_ok (commissions s) \<Longrightarrow>
     list_all recorded_ok (commissions (fst (post_order rt body s)))"
  by (auto simp: post_order_def Let_def pay_all due_ok simp del: due.simps
      split: option.splits)

lemma handle_ok:
  "list_all recorded_ok (commissions s) \<Longrightarrow>
     list_all recorded_ok (commissions (handle rt r s))"
  by (cases r) (auto simp: post_order_ok signup_def click_route_def split: option.splits)

lemma run_ok:
  "list_all recorded_ok (commissions s) \<Longrightarrow>
     list_all recorded_ok (commissions (run rt rs s))"
  unfolding run_def by (induction rs arbitrary: s) (simp_all add: handle_ok)

section \<open>Evaluation on the samples\<close>

lemmas sample_defs =
  sample_users_def abc_users_def abc_state_def sample_state_def mk_user_def mk_body_def
  findUserByCode_def js_or_def sample_runtime_def

lemmas order_eval =
  post_order_def Let_def sample_defs COMMISSION_LEVELS_length buildUpline_Suc
  pay_owner_def level_percent_0 level_percent_1 level_percent_2 level_percent_past
  js_gt_mul_zero

section \<open>Claims\<close>

text \<open>
  C1 (as amended). The walk stops when no iteration is left, when the current code is
  falsy, or when it resolves to no user; otherwise it keeps the resolved user and goes on
  with that user's referrer code and one iteration less. The list it returns has at most
  \<open>levels\<close> entries, and the order handler passes the length of the commission
  schedule, so its upline has at most 3 entries.
\<close>

theorem buildUpline_stops:
  "buildUpline us refCode levels =
     (if levels = 0 \<or> \<not> truthy refCode then []
      else (case findUserByCode us refCode of
              None \<Rightarrow> []
            | Some referrer \<Rightarrow>
                referrer # buildUpline us (js_or (u_referrerCode referrer) JNull) (levels - 1)))
   \<and> length (buildUpline us refCode levels) \<le> levels
   \<and> length (buildUpline us refCode (length COMMISSION_LEVELS)) \<le> 3"
proof -
  have "buildUpline us refCode levels =
     (if levels = 0 \<or> \<not> truthy refCode then []
      else (case findUserByCode us refCode of
              None \<Rightarrow> []
            | Some referrer \<Rightarrow>
                referrer # buildUpline us (js_or (u_referrerCode referrer) JNull) (levels - 1)))"
    by (cases levels) (auto simp: buildUpline_Suc split: option.splits)
  moreover have "length (buildUpline us refCode levels) \<le> levels"
    by (rule buildUpline_length)
  moreover have "length (buildUpline us refCode (length COMMISSION_LEVELS)) \<le> 3"
    using buildUpline_length [of us refCode "length COMMISSION_LEVELS"]
    by (simp add: COMMISSION_LEVELS_length)
  ultimately show ?thesis by blast
qed

theorem buildUpline_stops_witness:
  "buildUpline sample_users (JStr ''BBB'') (length COMMISSION_LEVELS) =
     [mk_user 2 ''BBB'' (JStr ''AAA''), mk_user 1 ''AAA'' JNull]
   \<and> length (buildUpline sample_users (JStr ''BBB'') (length COMMISSION_LEVELS)) \<le> 3"
  using buildUpline_stops [of sample_users "JStr ''BBB''" "length COMMISSION_LEVELS"]
        buildUpline_stops [of sample_users "JStr ''AAA''" "Suc (Suc 0)"]
        buildUpline_stops [of sample_users "JNull" "Suc 0"]
  by (simp add: COMMISSION_LEVELS_length sample_defs)

text \<open>
  The bound \<open>levels - 1\<close> fails: D was referred by C, C by B, B by A, and the upline
  built for an order on D's code holds all three.
\<close>

theorem buildUpline_three_counterexample:
  "findUserByCode sample_users (JStr ''DDD'') = Some (mk_user 4 ''DDD'' (JStr ''CCC''))
   \<and> \<not> length (buildUpline sample_users (u_referrerCode (mk_user 4 ''DDD'' (JStr ''CCC'')))
                (length COMMISSION_LEVELS)) \<le> length COMMISSION_LEVELS - 1"
  by (simp add: COMMISSION_LEVELS_length buildUpline_Suc sample_defs)

text \<open>
  C2 (as amended). An accepted order whose owner's referrer code resolves to a user,
  whose own referrer code resolves again: the payouts are, in this order, the owner's at
  level 1, the first ancestor's at level 2 and the second ancestor's at level 3, with the
  double products of the amount and 0.10, 0.05 and 0.02, each entry present exactly when
  its product is \<open>> 0\<close>; the commission records appended are the same entries, with
  those percents. All three are present for every amount from \<open>25 * 2^-1074\<close> on.
\<close>

theorem chain_of_two_three_payouts:
  assumes "truthy (b_amount body)" "truthy (b_code body)"
    and "findUserByCode (users s) (b_code body) = Some owner"
    and "Number_js rt (b_amount body) = Some n"
    and "truthy (u_referrerCode owner)"
    and "findUserByCode (users s) (u_referrerCode owner) = Some p1"
    and "truthy (u_referrerCode p1)"
    and "findUserByCode (users s) (u_referrerCode p1) = Some p2"
  shows "payouts_of (snd (post_order rt body s)) =
       filter (\<lambda>p. js_gt (p_amount p) (Fin 0))
         [\<lparr>p_userId = u_id owner, p_level = 1, p_amount = js_mul n (lit (10 / 100))\<rparr>,
          \<lparr>p_userId = u_id p1, p_level = 2, p_amount = js_mul n (lit (5 / 100))\<rparr>,
          \<lparr>p_userId = u_id p2, p_level = 3, p_amount = js_mul n (lit (2 / 100))\<rparr>]
   \<and> drop (length (commissions s)) (commissions (fst (post_order rt body s))) =
       filter (\<lambda>c. js_gt (c_amount c) (Fin 0))
         [\<lparr>c_orderId = length (orders s) + 1, c_earnerUserId = u_id owner, c_level = 1,
           c_percent = lit (10 / 100), c_amount = js_mul n (lit (10 / 100))\<rparr>,
          \<lparr>c_orderId = length (orders s) + 1, c_earnerUserId = u_id p1, c_level = 2,
           c_percent = lit (5 / 100), c_amount = js_mul n (lit (5 / 100))\<rparr>,
          \<lparr>c_orderId = length (orders s) + 1, c_earnerUserId = u_id p2, c_level = 3,
           c_percent = lit (2 / 100), c_amount = js_mul n (lit (2 / 100))\<rparr>]
   \<and> (js_le (Fin (25 / 2 ^ 1074)) n \<longrightarrow>
        payouts_of (snd (post_order rt body s)) =
          [\<lparr>p_userId = u_id owner, p_level = 1, p_amount = js_mul n (lit (10 / 100))\<rparr>,
           \<lparr>p_userId = u_id p1, p_level = 2, p_amount = js_mul n (lit (5 / 100))\<rparr>,
           \<lparr>p_userId = u_id p2, p_level = 3, p_amount = js_mul n (lit (2 / 100))\<rparr>])"
proof -
  obtain rest where
    "buildUpline (users s) (u_referrerCode owner) (length COMMISSION_LEVELS) = p1 # p2 # rest"
    using upline_two [OF assms(5-8)] by blast
  then have r: "post_order rt body s =
     (s\<lparr>orders := orders s @ [new_order n body s],
        commissions := commissions s @ due (new_order n body s) (owner # p1 # p2 # rest) 0\<rparr>,
      OrderCreated (length (orders s) + 1) n (b_code body)
        (map to_payout (due (new_order n body s) (owner # p1 # p2 # rest) 0)))"
    using post_order_accepted [OF assms(1-4)] by simp
  show ?thesis
    unfolding r due_three using guards_from_25 [of n]
    by (simp add: to_payout_def)
qed

theorem chain_of_two_three_payouts_witness:
  "payouts_of (snd (post_order sample_runtime (mk_body (JNum (Fin 100)) ''CCC'') abc_state)) =
     [\<lparr>p_userId = 3, p_level = 1, p_amount = Fin 10\<rparr>,
      \<lparr>p_userId = 2, p_level = 2, p_amount = Fin 5\<rparr>,
      \<lparr>p_userId = 1, p_level = 3, p_amount = Fin 2\<rparr>]"
proof -
  have o: "findUserByCode (users abc_state) (b_code (mk_body (JNum (Fin 100)) ''CCC''))
          = Some (mk_user 3 ''CCC'' (JStr ''BBB''))"
    by (simp add: sample_defs)
  have b: "findUserByCode (users abc_state) (u_referrerCode (mk_user 3 ''CCC'' (JStr ''BBB'')))
          = Some (mk_user 2 ''BBB'' (JStr ''AAA''))"
    by (simp add: sample_defs)
  have a: "findUserByCode (users abc_state) (u_referrerCode (mk_user 2 ''BBB'' (JStr ''AAA'')))
          = Some (mk_user 1 ''AAA'' JNull)"
    by (simp add: sample_defs)
  have n: "Number_js sample_runtime (b_amount (mk_body (JNum (Fin 100)) ''CCC'')) = Some (Fin 100)"
    by (simp add: mk_body_def)
  have v: "js_mul (Fin 100) (lit (1 / 10)) = Fin 10" "js_mul (Fin 100) (lit (1 / 20)) = Fin 5"
    "js_mul (Fin 100) (lit (1 / 50)) = Fin 2"
    by (simp_all add: lit_def double_eval)
  from chain_of_two_three_payouts [OF _ _ o n _ b _ a]
  show ?thesis
    by (simp add: mk_body_def mk_user_def v)
qed

text \<open>
  Not every accepted order has the three payouts: the order of amount \<open>-100\<close> in the
  scenario A, B, C is accepted and pays nobody.
\<close>

theorem chain_of_two_negative_counterexample:
  "findUserByCode (users abc_state) (JStr ''CCC'') = Some (mk_user 3 ''CCC'' (JStr ''BBB''))
   \<and> findUserByCode (users abc_state) (JStr ''BBB'') = Some (mk_user 2 ''BBB'' (JStr ''AAA''))
   \<and> findUserByCode (users abc_state) (JStr ''AAA'') = Some (mk_user 1 ''AAA'' JNull)
   \<and> snd (post_order sample_runtime (mk_body (JNum (Fin (- 100))) ''CCC'') abc_state) =
       OrderCreated 1 (Fin (- 100)) (JStr ''CCC'') []"
  by (simp add: order_eval guard_iff)

text \<open>
  C3 (as amended). A user U whose referrer code is U's own code, and whose code resolves
  to U: an accepted order on that code pays U, and records a commission for U, at each of
  the levels 1, 2 and 3 whose double product of the amount and 0.10, 0.05, 0.02 is
  \<open>> 0\<close>, and nobody else. That is all three levels for every amount from
  \<open>25 * 2^-1074\<close> on.
\<close>

theorem self_referral_paid_thrice:
  assumes "truthy (b_amount body)"
    and "Number_js rt (b_amount body) = Some n"
    and "b_code body = JStr (u_code U)" and "u_code U \<noteq> []"
    and "findUserByCode (users s) (JStr (u_code U)) = Some U"
    and "u_referrerCode U = JStr (u_code U)"
  shows "payouts_of (snd (post_order rt body s)) =
       filter (\<lambda>p. js_gt (p_amount p) (Fin 0))
         [\<lparr>p_userId = u_id U, p_level = 1, p_amount = js_mul n (lit (10 / 100))\<rparr>,
          \<lparr>p_userId = u_id U, p_level = 2, p_amount = js_mul n (lit (5 / 100))\<rparr>,
          \<lparr>p_userId = u_id U, p_level = 3, p_amount = js_mul n (lit (2 / 100))\<rparr>]
   \<and> drop (length (commissions s)) (commissions (fst (post_order rt body s))) =
       filter (\<lambda>c. js_gt (c_amount c) (Fin 0))
         [\<lparr>c_orderId = length (orders s) + 1, c_earnerUserId = u_id U, c_level = 1,
           c_percent = lit (10 / 100), c_amount = js_mul n (lit (10 / 100))\<rparr>,
          \<lparr>c_orderId = length (orders s) + 1, c_earnerUserId = u_id U, c_level = 2,
           c_percent = lit (5 / 100), c_amount = js_mul n (lit (5 / 100))\<rparr>,
          \<lparr>c_orderId = length (orders s) + 1, c_earnerUserId = u_id U, c_level = 3,
           c_percent = lit (2 / 100), c_amount = js_mul n (lit (2 / 100))\<rparr>]
   \<and> (js_le (Fin (25 / 2 ^ 1074)) n \<longrightarrow>
        payouts_of (snd (post_order rt body s)) =
          [\<lparr>p_userId = u_id U, p_level = 1, p_amount = js_mul n (lit (10 / 100))\<rparr>,
           \<lparr>p_userId = u_id U, p_level = 2, p_amount = js_mul n (lit (5 / 100))\<rparr>,
           \<lparr>p_userId = u_id U, p_level = 3, p_amount = js_mul n (lit (2 / 100))\<rparr>]
        \<and> map c_earnerUserId
              (drop (length (commissions s)) (commissions (fst (post_order rt body s)))) =
            [u_id U, u_id U, u_id U])"
proof -
  have c: "truthy (b_code body)" "truthy (u_referrerCode U)"
    using assms(3,4,6) by simp_all
  have f: "findUserByCode (users s) (b_code body) = Some U"
    "findUserByCode (users s) (u_referrerCode U) = Some U"
    using assms(3,5,6) by simp_all
  obtain rest where
    "buildUpline (users s) (u_referrerCode U) (length COMMISSION_LEVELS) = U # U # rest"
    using upline_two [OF c(2) f(2) c(2) f(2)] by blast
  then have r: "post_order rt body s =
     (s\<lparr>orders := orders s @ [new_order n body s],
        commissions := commissions s @ due (new_order n body s) (U # U # U # rest) 0\<rparr>,
      OrderCreated (length (orders s) + 1) n (b_code body)
        (map to_payout (due (new_order n body s) (U # U # U # rest) 0)))"
    using post_order_accepted [OF assms(1) c(1) f(1) assms(2)] by simp
  show ?thesis
    unfolding r due_three using guards_from_25 [of n]
    by (simp add: to_payout_def)
qed

theorem self_referral_paid_thrice_witness:
  "snd (post_order sample_runtime (mk_body (JNum (Fin 100)) ''FFF'') sample_state) =
     OrderCreated 1 (Fin 100) (JStr ''FFF'')
       [\<lparr>p_userId = 6, p_level = 1, p_amount = Fin 10\<rparr>,
        \<lparr>p_userId = 6, p_level = 2, p_amount = Fin 5\<rparr>,
        \<lparr>p_userId = 6, p_level = 3, p_amount = Fin 2\<rparr>]
   \<and> map c_earnerUserId
        (commissions (fst (post_order sample_runtime (mk_body (JNum (Fin 100)) ''FFF'')
           sample_state))) = [6, 6, 6]"
proof -
  have u: "findUserByCode (users sample_state) (JStr (u_code (mk_user 6 ''FFF'' (JStr ''FFF''))))
          = Some (mk_user 6 ''FFF'' (JStr ''FFF''))"
    by (simp add: sample_defs)
  have n: "Number_js sample_runtime (b_amount (mk_body (JNum (Fin 100)) ''FFF'')) = Some (Fin 100)"
    by (simp add: mk_body_def)
  have v: "js_mul (Fin 100) (lit (1 / 10)) = Fin 10" "js_mul (Fin 100) (lit (1 / 20)) = Fin 5"
    "js_mul (Fin 100) (lit (1 / 50)) = Fin 2"
    by (simp_all add: lit_def double_eval)
  have r: "\<exists>ps. snd (post_order sample_runtime (mk_body (JNum (Fin 100)) ''FFF'') sample_state) =
     OrderCreated 1 (Fin 100) (JStr ''FFF'') ps"
    by (simp add: post_order_def Let_def sample_defs)
  from self_referral_paid_thrice [OF _ n _ _ u] r
  show ?thesis
    by (auto simp: mk_body_def mk_user_def sample_state_def v)
qed

text \<open>
  A positive amount is not enough: F is its own referrer, and an order of amount
  \<open>20 * 2^-1074\<close> (1e-322) on F's code pays F at levels 1 and 2 only, the product with
  0.02 rounding to zero.
\<close>

theorem self_referral_underflow_counterexample:
  "findUserByCode (users sample_state) (JStr ''FFF'') = Some (mk_user 6 ''FFF'' (JStr ''FFF''))
   \<and> js_gt (Fin (20 / 2 ^ 1074)) (Fin 0)
   \<and> status (snd (post_order sample_runtime (mk_body (JNum (Fin (20 / 2 ^ 1074))) ''FFF'')
        sample_state)) = 200
   \<and> map (\<lambda>p. (p_userId p, p_level p))
        (payouts_of (snd (post_order sample_runtime (mk_body (JNum (Fin (20 / 2 ^ 1074))) ''FFF'')
           sample_state))) = [(6, 1), (6, 2)]"
  by (simp add: order_eval guard_iff)

text \<open>
  C4 (as amended). The answer is 400 exactly when the amount or the code is falsy:
  absent, \<open>null\<close>, \<open>false\<close>, \<open>0\<close>, \<open>NaN\<close> or the empty string. Every other
  request passes validation, whether its amount is numeric or not.
\<close>

theorem order_400_iff_falsy:
  "status (snd (post_order rt body s)) = 400 \<longleftrightarrow>
     \<not> truthy (b_amount body) \<or> \<not> truthy (b_code body)"
  by (auto simp: post_order_def Let_def split: option.splits)

theorem order_400_iff_falsy_witness:
  "status (snd (post_order sample_runtime (mk_body (JStr ''abc'') ''AAA'') abc_state)) \<noteq> 400
   \<and> status (snd (post_order sample_runtime (mk_body JUndefined ''AAA'') abc_state)) = 400"
  using order_400_iff_falsy [of sample_runtime "mk_body (JStr ''abc'') ''AAA''" abc_state]
        order_400_iff_falsy [of sample_runtime "mk_body JUndefined ''AAA''" abc_state]
  by (simp add: mk_body_def)

text \<open>
  An amount that is present and numeric, with a code that is present and known, is
  answered 400 when the amount is \<open>0\<close>.
\<close>

theorem order_zero_amount_counterexample:
  "status (snd (post_order sample_runtime (mk_body (JNum (Fin 0)) ''AAA'') abc_state)) = 400"
  by (simp add: post_order_def mk_body_def)

text \<open>
  C5 (as amended). For a numeric, truthy amount and a truthy code that resolves to a
  user: when the double product of the amount and 0.10 is \<open>> 0\<close>, the first payout is
  the owner's, at level 1, with that product as its amount; otherwise there is no
  level-1 payout. No later payout is at level 1. The product is \<open>> 0\<close> for every
  amount from \<open>5 * 2^-1074\<close> on.
\<close>

theorem level1_payout_exact:
  assumes "b_amount body = JNum n" and "truthy (JNum n)"
    and "truthy (b_code body)"
    and "findUserByCode (users s) (b_code body) = Some owner"
  shows "(\<exists>rest. payouts_of (snd (post_order rt body s)) =
            (if js_gt (js_mul n (lit (10 / 100))) (Fin 0) then
               [\<lparr>p_userId = u_id owner, p_level = 1, p_amount = js_mul n (lit (10 / 100))\<rparr>]
             else []) @ rest
          \<and> (\<forall>p \<in> set rest. 2 \<le> p_level p))
   \<and> (js_le (Fin (5 / 2 ^ 1074)) n \<longrightarrow> js_gt (js_mul n (lit (10 / 100))) (Fin 0))"
proof -
  have t: "truthy (b_amount body)" and c: "Number_js rt (b_amount body) = Some n"
    using assms(1,2) by simp_all
  let ?ord = "new_order n body s"
  let ?up = "buildUpline (users s) (u_referrerCode owner) (length COMMISSION_LEVELS)"
  have "due ?ord (owner # ?up) 0 = due ?ord [owner] 0 @ due ?ord ?up 1"
    by simp
  then have "payouts_of (snd (post_order rt body s)) =
      map to_payout (due ?ord [owner] 0) @ map to_payout (due ?ord ?up 1)"
    unfolding post_order_accepted [OF t assms(3,4) c] by simp
  moreover have "\<forall>p \<in> set (map to_payout (due ?ord ?up 1)). 2 \<le> p_level p"
    using due_level [of _ ?ord ?up 1] by (fastforce simp: to_payout_def numeral_2_eq_2)
  ultimately have "\<exists>rest. payouts_of (snd (post_order rt body s)) =
            (if js_gt (js_mul n (lit (10 / 100))) (Fin 0) then
               [\<lparr>p_userId = u_id owner, p_level = 1, p_amount = js_mul n (lit (10 / 100))\<rparr>]
             else []) @ rest
          \<and> (\<forall>p \<in> set rest. 2 \<le> p_level p)"
    unfolding due_one by (auto simp: to_payout_def)
  then show ?thesis
    using guard_from(1) [of n] by simp
qed

theorem level1_payout_exact_witness:
  "payouts_of (snd (post_order sample_runtime (mk_body (JNum (Fin 3)) ''AAA'') abc_state)) =
     [\<lparr>p_userId = 1, p_level = 1, p_amount = Fin (1351079888211149 / 2 ^ 52)\<rparr>]"
proof -
  have o: "findUserByCode (users abc_state) (b_code (mk_body (JNum (Fin 3)) ''AAA''))
          = Some (mk_user 1 ''AAA'' JNull)"
    by (simp add: sample_defs)
  have v: "js_mul (Fin 3) (lit (1 / 10)) = Fin (1351079888211149 / 2 ^ 52)"
    by (simp add: lit_def double_eval)
  have "length (payouts_of (snd (post_order sample_runtime (mk_body (JNum (Fin 3)) ''AAA'')
          abc_state))) \<le> 1"
    by (simp add: order_eval)
  with level1_payout_exact [OF _ _ _ o, of "Fin 3" sample_runtime]
  show ?thesis
    by (auto simp: mk_body_def mk_user_def v)
qed

text \<open>
  A positive amount is not enough: for the least positive double \<open>2^-1074\<close> (5e-324)
  the product with 0.10 rounds to zero and the accepted order has no payout.
\<close>

theorem level1_underflow_counterexample:
  "findUserByCode (users abc_state) (JStr ''AAA'') = Some (mk_user 1 ''AAA'' JNull)
   \<and> js_gt (Fin (1 / 2 ^ 1074)) (Fin 0)
   \<and> snd (post_order sample_runtime (mk_body (JNum (Fin (1 / 2 ^ 1074))) ''AAA'') abc_state) =
       OrderCreated 1 (Fin (1 / 2 ^ 1074)) (JStr ''AAA'') []"
  by (simp add: order_eval guard_iff)

text \<open>
  C6. After any sequence of requests from the empty state, every commission record has
  an amount \<open>> 0\<close> and a level between 1 and the length of the schedule: an upline
  member past the schedule is never recorded.
\<close>

theorem commissions_always_positive:
  "\<forall>c \<in> set (commissions (run rt rs init)).
     js_gt (c_amount c) (Fin 0) \<and> 1 \<le> c_level c \<and> c_level c \<le> length COMMISSION_LEVELS"
proof -
  have "list_all recorded_ok (commissions init)"
    by (simp add: init_def)
  then have "list_all recorded_ok (commissions (run rt rs init))"
    by (rule run_ok)
  then show ?thesis
    by (simp add: list_all_iff recorded_ok_def)
qed

theorem commissions_always_positive_witness:
  "map (\<lambda>c. (c_level c, c_amount c)) (commissions (run sample_runtime sample_requests init)) =
     [(1, Fin 10), (2, Fin 5)]
   \<and> list_all (\<lambda>c. js_gt (c_amount c) (Fin 0) \<and> 1 \<le> c_level c
                   \<and> c_level c \<le> length COMMISSION_LEVELS)
       (commissions (run sample_runtime sample_requests init))"
proof -
  have v: "js_mul (Fin 100) (lit (1 / 10)) = Fin 10" "js_mul (Fin 100) (lit (1 / 20)) = Fin 5"
    by (simp_all add: lit_def double_eval)
  have "map (\<lambda>c. (c_level c, c_amount c))
          (commissions (run sample_runtime sample_requests init)) = [(1, Fin 10), (2, Fin 5)]"
    by (simp add: run_def sample_requests_def init_def signup_def click_route_def
          order_eval guard_iff v)
  with commissions_always_positive [of sample_runtime sample_requests] show ?thesis
    by (simp add: list_all_iff)
qed

text \<open>
  C7 (as amended). An accepted order whose owner's referrer code resolves to no user,
  whatever its amount: the upline is empty, the answer is 200, and the payouts hold no
  entry but the owner's level-1 entry, which is there exactly when the double product of
  the amount and 0.10 is \<open>> 0\<close> (so for every amount from \<open>5 * 2^-1074\<close> on).
\<close>

theorem broken_chain_level1_only:
  assumes "truthy (b_amount body)" "truthy (b_code body)"
    and "findUserByCode (users s) (b_code body) = Some owner"
    and "Number_js rt (b_amount body) = Some n"
    and "findUserByCode (users s) (u_referrerCode owner) = None"
  shows "buildUpline (users s) (u_referrerCode owner) (length COMMISSION_LEVELS) = []
   \<and> status (snd (post_order rt body s)) = 200
   \<and> payouts_of (snd (post_order rt body s)) =
       (if js_gt (js_mul n (lit (10 / 100))) (Fin 0) then
          [\<lparr>p_userId = u_id owner, p_level = 1, p_amount = js_mul n (lit (10 / 100))\<rparr>]
        else [])
   \<and> (js_le (Fin (5 / 2 ^ 1074)) n \<longrightarrow> js_gt (js_mul n (lit (10 / 100))) (Fin 0))"
proof -
  have "buildUpline (users s) (u_referrerCode owner) (length COMMISSION_LEVELS) = []"
    using assms(5) by (simp add: upline_none)
  then show ?thesis
    unfolding post_order_accepted [OF assms(1-4)]
    using guard_from(1) [of n] by (simp add: to_payout_def level_percent_0)
qed

theorem broken_chain_level1_only_witness:
  "buildUpline sample_users (JStr ''ZZZ'') (length COMMISSION_LEVELS) = []
   \<and> status (snd (post_order sample_runtime (mk_body (JNum (Fin 100)) ''EEE'') sample_state)) = 200
   \<and> payouts_of (snd (post_order sample_runtime (mk_body (JNum (Fin 100)) ''EEE'') sample_state))
       = [\<lparr>p_userId = 5, p_level = 1, p_amount = Fin 10\<rparr>]"
proof -
  have o: "findUserByCode (users sample_state) (b_code (mk_body (JNum (Fin 100)) ''EEE''))
          = Some (mk_user 5 ''EEE'' (JStr ''ZZZ''))"
    by (simp add: sample_defs)
  have n: "Number_js sample_runtime (b_amount (mk_body (JNum (Fin 100)) ''EEE'')) = Some (Fin 100)"
    by (simp add: mk_body_def)
  have v: "js_mul (Fin 100) (lit (1 / 10)) = Fin 10"
    by (simp add: lit_def double_eval)
  from broken_chain_level1_only [OF _ _ o n]
  show ?thesis
    by (simp add: sample_defs v)
qed

text \<open>
  The level-1 entry is not always there: E's referrer code is nobody's, and an order of
  amount \<open>-5\<close> on E's code is accepted with no payout at all.
\<close>

theorem broken_chain_negative_counterexample:
  "findUserByCode (users sample_state) (JStr ''EEE'') = Some (mk_user 5 ''EEE'' (JStr ''ZZZ''))
   \<and> findUserByCode (users sample_state) (JStr ''ZZZ'') = None
   \<and> snd (post_order sample_runtime (mk_body (JNum (Fin (- 5))) ''EEE'') sample_state) =
       OrderCreated 1 (Fin (- 5)) (JStr ''EEE'') []"
  by (simp add: order_eval guard_iff)

text \<open>
  C8 (as amended). An accepted order whose owner has referrer code \<open>null\<close> returns
  the owner's level-1 payout alone when the double product of the amount and 0.10 is
  \<open>> 0\<close> (so for every amount from \<open>5 * 2^-1074\<close> on), and no payout otherwise.
\<close>

theorem no_referrer_single_payout:
  assumes "truthy (b_amount body)" "truthy (b_code body)"
    and "findUserByCode (users s) (b_code body) = Some owner"
    and "Number_js rt (b_amount body) = Some n"
    and "u_referrerCode owner = JNull"
  shows "snd (post_order rt body s) =
       OrderCreated (length (orders s) + 1) n (b_code body)
         (if js_gt (js_mul n (lit (10 / 100))) (Fin 0) then
            [\<lparr>p_userId = u_id owner, p_level = 1, p_amount = js_mul n (lit (10 / 100))\<rparr>]
          else [])
   \<and> (js_le (Fin (5 / 2 ^ 1074)) n \<longrightarrow> js_gt (js_mul n (lit (10 / 100))) (Fin 0))"
proof -
  have "buildUpline (users s) (u_referrerCode owner) (length COMMISSION_LEVELS) = []"
    using assms(5) by (simp add: upline_none)
  then show ?thesis
    unfolding post_order_accepted [OF assms(1-4)]
    using guard_from(1) [of n] by (simp add: to_payout_def level_percent_0)
qed

theorem no_referrer_single_payout_witness:
  "snd (post_order sample_runtime (mk_body (JNum (Fin 50)) ''AAA'') abc_state) =
     OrderCreated 1 (Fin 50) (JStr ''AAA'') [\<lparr>p_userId = 1, p_level = 1, p_amount = Fin 5\<rparr>]"
proof -
  have o: "findUserByCode (users abc_state) (b_code (mk_body (JNum (Fin 50)) ''AAA''))
          = Some (mk_user 1 ''AAA'' JNull)"
    by (simp add: sample_defs)
  have n: "Number_js sample_runtime (b_amount (mk_body (JNum (Fin 50)) ''AAA'')) = Some (Fin 50)"
    by (simp add: mk_body_def)
  have v: "js_mul (Fin 50) (lit (1 / 10)) = Fin 5"
    by (simp add: lit_def double_eval)
  from no_referrer_single_payout [OF _ _ o n]
  show ?thesis
    by (simp add: mk_body_def mk_user_def abc_state_def v)
qed

text \<open>
  Not every accepted order has the entry: the order of amount \<open>-50\<close> on A's code is
  accepted with no payout.
\<close>

theorem no_referrer_negative_counterexample:
  "findUserByCode (users abc_state) (JStr ''AAA'') = Some (mk_user 1 ''AAA'' JNull)
   \<and> snd (post_order sample_runtime (mk_body (JNum (Fin (- 50))) ''AAA'') abc_state) =
       OrderCreated 1 (Fin (- 50)) (JStr ''AAA'') []"
  by (simp add: order_eval guard_iff)

text \<open>
  C9. A request answered 400 or 404 leaves the whole state, and so the orders and the
  commissions, as it was.
\<close>

theorem order_error_atomic:
  "status (snd (post_order rt body s)) = 400 \<or> status (snd (post_order rt body s)) = 404
     \<Longrightarrow> fst (post_order rt body s) = s"
  by (auto simp: post_order_def Let_def split: option.splits if_splits)

theorem order_error_atomic_witness:
  "status (snd (post_order sample_runtime (mk_body (JNum (Fin 100)) ''QQQ'') abc_state)) = 404
   \<and> fst (post_order sample_runtime (mk_body (JNum (Fin 100)) ''QQQ'') abc_state) = abc_state"
proof -
  have h: "status (snd (post_order sample_runtime (mk_body (JNum (Fin 100)) ''QQQ'') abc_state))
             = 404"
    by (simp add: post_order_def sample_defs)
  then show ?thesis
    using order_error_atomic [of sample_runtime "mk_body (JNum (Fin 100)) ''QQQ''" abc_state]
    by simp
qed

text \<open>
  C10 (as amended). For an order answered 200, whatever the referral graph: the payouts
  are, level and amount, a subsequence of level 1 with the amount times 0.10, level 2
  with the amount times 0.05 and level 3 with the amount times 0.02 (double products);
  every payout amount is \<open>> 0\<close>; and the commission records appended carry the same
  earners, levels and amounts in the same order.
\<close>

theorem payouts_one_per_level:
  assumes "status (snd (post_order rt body s)) = 200"
    and "Number_js rt (b_amount body) = Some n"
  shows "subseq (map (\<lambda>p. (p_level p, p_amount p)) (payouts_of (snd (post_order rt body s))))
           [(1, js_mul n (lit (10 / 100))),
            (2, js_mul n (lit (5 / 100))),
            (3, js_mul n (lit (2 / 100)))]
   \<and> (\<forall>p \<in> set (payouts_of (snd (post_order rt body s))). js_gt (p_amount p) (Fin 0))
   \<and> map (\<lambda>c. (c_earnerUserId c, c_level c, c_amount c))
        (drop (length (commissions s)) (commissions (fst (post_order rt body s)))) =
      map (\<lambda>p. (p_userId p, p_level p, p_amount p)) (payouts_of (snd (post_order rt body s)))"
proof -
  from assms(1) obtain owner where
    t: "truthy (b_amount body)" "truthy (b_code body)"
    and o: "findUserByCode (users s) (b_code body) = Some owner"
    by (auto simp: status_200)
  let ?due = "due (new_order n body s)
     (owner # buildUpline (users s) (u_referrerCode owner) (length COMMISSION_LEVELS)) 0"
  have m: "map (\<lambda>p. (p_level p, p_amount p)) (map to_payout ?due) =
      map (\<lambda>c. (c_level c, c_amount c)) ?due"
    by (simp add: to_payout_def)
  have "subseq (map (\<lambda>p. (p_level p, p_amount p)) (map to_payout ?due))
           [(1, js_mul n (lit (10 / 100))),
            (2, js_mul n (lit (5 / 100))),
            (3, js_mul n (lit (2 / 100)))]"
    unfolding m
    using due_subseq [of "new_order n body s"
        "owner # buildUpline (users s) (u_referrerCode owner) (length COMMISSION_LEVELS)"]
    by (simp del: due.simps)
  moreover have "\<forall>p \<in> set (map to_payout ?due). js_gt (p_amount p) (Fin 0)"
    using due_positive [of _ "new_order n body s"] by (auto simp: to_payout_def)
  ultimately show ?thesis
    unfolding post_order_accepted [OF t o assms(2)]
    by (simp add: to_payout_def del: due.simps)
qed

theorem payouts_one_per_level_witness:
  "map (\<lambda>p. (p_level p, p_amount p))
     (payouts_of (snd (post_order sample_runtime (mk_body (JNum (Fin 100)) ''DDD'') sample_state)))
     = [(1, Fin 10), (2, Fin 5), (3, Fin 2)]
   \<and> subseq (map (\<lambda>p. (p_level p, p_amount p))
       (payouts_of (snd (post_order sample_runtime (mk_body (JNum (Fin 100)) ''DDD'')
          sample_state))))
       [(1, Fin 10), (2, Fin 5), (3, Fin 2)]"
proof -
  have v: "js_mul (Fin 100) (lit (1 / 10)) = Fin 10" "js_mul (Fin 100) (lit (1 / 20)) = Fin 5"
    "js_mul (Fin 100) (lit (1 / 50)) = Fin 2"
    by (simp_all add: lit_def double_eval)
  have s: "status (snd (post_order sample_runtime (mk_body (JNum (Fin 100)) ''DDD'')
             sample_state)) = 200"
    by (simp add: status_200 sample_defs)
  have n: "Number_js sample_runtime (b_amount (mk_body (JNum (Fin 100)) ''DDD'')) = Some (Fin 100)"
    by (simp add: mk_body_def)
  have "map (\<lambda>p. (p_level p, p_amount p))
     (payouts_of (snd (post_order sample_runtime (mk_body (JNum (Fin 100)) ''DDD'') sample_state)))
     = [(1, Fin 10), (2, Fin 5), (3, Fin 2)]"
    by (simp add: order_eval v)
  with payouts_one_per_level [OF s n] show ?thesis
    by (simp add: v)
qed

text \<open>
  The total is not bounded by 0.17 times the amount: for amount 37 and two ancestors the
  payouts are the doubles 3.7, 1.85 and 0.74; their sum in double arithmetic is
  6.290000000000001, above the double 0.17 * 37 = 6.29, and their exact sum is above
  the exact \<open>17/100 * 37\<close> as well.
\<close>

theorem total_exceeds_counterexample:
  "status (snd order_37) = 200
   \<and> map p_amount (payouts_of (snd order_37)) =
       [Fin (4165829655317709 / 2 ^ 50), Fin (4165829655317709 / 2 ^ 51),
        Fin (3332663724254167 / 2 ^ 52)]
   \<and> js_sum (map p_amount (payouts_of (snd order_37))) = Fin (3540955207020053 / 2 ^ 49)
   \<and> js_mul (lit (17 / 100)) (Fin 37) = Fin (7081910414040105 / 2 ^ 50)
   \<and> \<not> js_le (js_sum (map p_amount (payouts_of (snd order_37))))
          (js_mul (lit (17 / 100)) (Fin 37))
   \<and> (17 / 100 * 37 :: rat) <
       4165829655317709 / 2 ^ 50 + 4165829655317709 / 2 ^ 51 + 3332663724254167 / 2 ^ 52"
proof -
  have v: "js_mul (Fin 37) (lit (1 / 10)) = Fin (4165829655317709 / 2 ^ 50)"
    "js_mul (Fin 37) (lit (1 / 20)) = Fin (4165829655317709 / 2 ^ 51)"
    "js_mul (Fin 37) (lit (1 / 50)) = Fin (3332663724254167 / 2 ^ 52)"
    by (simp_all add: lit_def double_eval)
  have p: "snd order_37 = OrderCreated 1 (Fin 37) (JStr ''CCC'')
     [\<lparr>p_userId = 3, p_level = 1, p_amount = Fin (4165829655317709 / 2 ^ 50)\<rparr>,
      \<lparr>p_userId = 2, p_level = 2, p_amount = Fin (4165829655317709 / 2 ^ 51)\<rparr>,
      \<lparr>p_userId = 1, p_level = 3, p_amount = Fin (3332663724254167 / 2 ^ 52)\<rparr>]"
    by (simp add: order_37_def order_eval v)
  have s: "js_sum [Fin (4165829655317709 / 2 ^ 50), Fin (4165829655317709 / 2 ^ 51),
        Fin (3332663724254167 / 2 ^ 52)] = Fin (3540955207020053 / 2 ^ 49)"
    by (simp add: js_sum_def double_eval)
  have b: "js_mul (lit (17 / 100)) (Fin 37) = Fin (7081910414040105 / 2 ^ 50)"
    by (simp add: lit_def double_eval)
  show ?thesis
    unfolding p b using s by simp
qed

end
